theory Spec2Isabelle
  imports
    Complex_Main
    "HOL-Library.Char_ord"
    "HOL-Library.List_Lexorder"
    "HOL-Library.Multiset"
    "HOL-Library.AList"
begin

section \<open>Numbers\<close>

text \<open>
  The analytics core computes with JavaScript numbers. The metric values are
  integers (\<open>parseInt\<close> in \<open>WeeklyMetrics\<close>), modelled as \<^typ>\<open>int\<close>;
  quotients are modelled exactly, as \<^typ>\<open>rat\<close>. The model therefore describes the
  code on values whose sums and quotients are represented exactly enough by
  doubles; rounding errors of the floating-point division, \<open>NaN\<close> and the
  infinities are outside it.

  \<open>Math.round(x)\<close> is the integer nearest to \<open>x\<close>, a tie going towards
  \<open>+\<infinity>\<close>: \<open>floor(x + 0.5)\<close>.
\<close>

definition js_round :: "rat \<Rightarrow> int" where
  "js_round x = \<lfloor>x + 1 / 2\<rfloor>"

text \<open>
  An integer in a template literal is written in decimal, with a minus sign when it
  is negative.
\<close>

definition digit_char :: "nat \<Rightarrow> char" where
  "digit_char d = ''0123456789'' ! d"

function show_nat :: "nat \<Rightarrow> string" where
  "show_nat n = (if n < 10 then [digit_char n] else show_nat (n div 10) @ [digit_char (n mod 10)])"
  by pat_completeness auto
termination
  by (relation "measure id") auto

declare show_nat.simps [simp del]

definition show_int :: "int \<Rightarrow> string" where
  "show_int i = (if i < 0 then CHR ''-'' # show_nat (nat (- i)) else show_nat (nat i))"

section \<open>Data model (\<open>core/weekly_models.js\<close>)\<close>

record Page =
  pageId :: string
  pageName :: string

record WeekPeriod =
  year :: int
  week :: int
  startDate :: string
  endDate :: string

record WeeklyMetrics =
  reach :: int
  engagements :: int

record WeeklyPageData =
  page :: Page
  period :: WeekPeriod
  metrics :: WeeklyMetrics
  status :: string
  comment :: "string option"

text \<open>
  The analytics functions take the metric as one of the two property names
  \<open>'reach'\<close> and \<open>'engagements'\<close>; \<open>data.metrics[metric]\<close> reads that property.
\<close>

datatype metric = Reach | Engagements

fun metric_value :: "metric \<Rightarrow> WeeklyPageData \<Rightarrow> int" where
  "metric_value Reach data = reach (metrics data)"
| "metric_value Engagements data = engagements (metrics data)"

section \<open>Reach calculator\<close>

text \<open>
  \<open>calculateAverageReach(reachValues)\<close>: the argument is \<open>None\<close> for a missing
  (\<open>null\<close> or \<open>undefined\<close>) array. \<open>reduce((sum, value) => sum + value, 0)\<close>
  is a left fold from 0.
\<close>

definition calculateAverageReach :: "int list option \<Rightarrow> int" where
  "calculateAverageReach reachValues =
     (case reachValues of
        None \<Rightarrow> 0
      | Some vs \<Rightarrow>
          if length vs = 0 then 0
          else
            let total = foldl (\<lambda>sum v. sum + v) 0 vs
            in js_round (of_int total / of_int (int (length vs))))"

text \<open>
  \<open>detectIncorrectReachSum\<close> returns a warning text or \<open>null\<close> (\<open>None\<close>). The text
  interpolates \<open>suspectedSum.toLocaleString()\<close>, the number as the host's locale
  writes it, which is the parameter \<open>toLocaleString\<close>, and \<open>weekCount\<close> in decimal.
\<close>

definition detectIncorrectReachSum :: "(int \<Rightarrow> string) \<Rightarrow> int \<Rightarrow> int \<Rightarrow> string option" where
  "detectIncorrectReachSum toLocaleString suspectedSum weekCount =
     (if weekCount \<le> 1 then None
      else
        let suspiciouslyHigh = (suspectedSum > 10000000)
        in if suspiciouslyHigh
           then Some (''VARNING: Detta reach-v'' @ [CHR 0xE4] @ ''rde ('' @ toLocaleString suspectedSum
                  @ '') verkar misst'' @ [CHR 0xE4] @ ''nkt h'' @ [CHR 0xF6] @ ''gt. ''
                  @ ''Har reach summerats felaktigt '' @ [CHR 0xF6] @ ''ver '' @ show_int weekCount
                  @ '' veckor ist'' @ [CHR 0xE4] @ ''llet f'' @ [CHR 0xF6] @ ''r att ber'' @ [CHR 0xE4]
                  @ ''kna genomsnitt?'')
           else None)"

section \<open>Weekly analytics\<close>




record MetricStatistics =
  min_value :: int
  max_value :: int
  average :: int
  median :: int
  total :: int


text \<open>
  \<open>rankPagesByMetric\<close>. \<open>Array.prototype.sort\<close> is stable, and the comparator
  \<open>(a, b) => b.value - a.value\<close> orders by descending value: a stable sort on the
  key \<open>- value\<close>. The last \<open>map\<close> numbers the items from 1.
\<close>

record RankedPage =
  rank :: nat
  ranked_page :: Page
  ranked_value :: int
  ranked_status :: string

definition rankPagesByMetric :: "WeeklyPageData list \<Rightarrow> metric \<Rightarrow> RankedPage list" where
  "rankPagesByMetric weeklyDataArray metric =
     (if length weeklyDataArray = 0 then []
      else
        map (\<lambda>(index, item). item\<lparr>rank := index + 1\<rparr>)
          (enumerate 0
            (sort_key (\<lambda>a. - ranked_value a)
              (map (\<lambda>data. \<lparr>rank = 0, ranked_page = page data,
                                ranked_value = metric_value metric data,
                                ranked_status = status data\<rparr>)
                 weeklyDataArray))))"

text \<open>
  \<open>findConsistentGrowth\<close>. \<open>dataByPage\<close> is the caller's object, given as the list
  of its own entries in the order \<open>for ... in\<close> visits them; \<open>minWeeks\<close> is a number
  of weeks. The comparator \<open>a.period.startDate.localeCompare(b.period.startDate)\<close>
  is taken as the code-unit order of the two strings, with which the collation agrees
  on ISO dates (digits and hyphens in fixed positions). The inner loop runs over the
  index \<open>i\<close> from 1 with the two counters.
\<close>

function growth_loop :: "metric \<Rightarrow> WeeklyPageData list \<Rightarrow> nat \<Rightarrow> nat \<Rightarrow> nat \<Rightarrow> nat" where
  "growth_loop metric sortedData i consecutiveGrowthWeeks maxConsecutiveGrowth =
     (if i < length sortedData then
        (if metric_value metric (sortedData ! i) > metric_value metric (sortedData ! (i - 1))
         then growth_loop metric sortedData (i + 1) (consecutiveGrowthWeeks + 1)
                (max maxConsecutiveGrowth (consecutiveGrowthWeeks + 1))
         else growth_loop metric sortedData (i + 1) 0 maxConsecutiveGrowth)
      else maxConsecutiveGrowth)"
  by pat_completeness auto
termination
  by (relation "measure (\<lambda>(metric, sortedData, i, c, m). length sortedData - i)") auto

declare growth_loop.simps [simp del]

record GrowthPage =
  growth_page :: Page
  consecutiveWeeks :: nat
  totalWeeks :: nat

fun growth_pages ::
  "(string \<times> WeeklyPageData list) list \<Rightarrow> metric \<Rightarrow> nat \<Rightarrow> GrowthPage list" where
  "growth_pages [] metric minWeeks = []"
| "growth_pages ((pid, pageData) # rest) metric minWeeks =
     (if length pageData < minWeeks + 1 then growth_pages rest metric minWeeks
      else
        let sortedData = sort_key (\<lambda>a. startDate (period a)) pageData;
            maxConsecutiveGrowth = growth_loop metric sortedData 1 0 0
        in if maxConsecutiveGrowth \<ge> minWeeks
           then \<lparr>growth_page = page (hd sortedData),
                  consecutiveWeeks = maxConsecutiveGrowth,
                  totalWeeks = length sortedData\<rparr> # growth_pages rest metric minWeeks
           else growth_pages rest metric minWeeks)"

definition findConsistentGrowth ::
  "(string \<times> WeeklyPageData list) list \<Rightarrow> metric \<Rightarrow> nat \<Rightarrow> GrowthPage list" where
  "findConsistentGrowth dataByPage metric minWeeks =
     sort_key (\<lambda>a. - int (consecutiveWeeks a)) (growth_pages dataByPage metric minWeeks)"

section \<open>Plain objects used as dictionaries\<close>

text \<open>
  The aggregation functions and the metric registry use plain objects (\<open>{}\<close> and an
  object literal) as dictionaries from strings. The own properties of such an object
  are modelled as an association list in insertion order (the order in which
  \<open>for ... in\<close> enumerates the keys is not modelled; no statement depends on it).
  Reading \<open>obj[key]\<close> looks for an own property first and then follows the
  prototype chain to \<open>Object.prototype\<close>, whose members (all functions, and for \<open>__proto__\<close> the
  prototype object itself) are truthy values that have none of the properties the
  code reads next (\<open>weeks\<close>, \<open>metrics\<close>, \<open>canSum\<close>, \<open>aggregationMethod\<close>,
  \<open>displayName\<close>, \<open>warningMessage\<close>): reading one of these gives \<open>undefined\<close>.
\<close>

datatype 'a property = Own 'a | Inherited | Undefined

definition object_prototype_keys :: "string list" where
  "object_prototype_keys =
     [''constructor'', ''hasOwnProperty'', ''isPrototypeOf'', ''propertyIsEnumerable'',
      ''toLocaleString'', ''toString'', ''valueOf'', ''__proto__'',
      ''__defineGetter__'', ''__defineSetter__'', ''__lookupGetter__'', ''__lookupSetter__'']"

definition get_property :: "(string \<times> 'a) list \<Rightarrow> string \<Rightarrow> 'a property" where
  "get_property obj k =
     (case map_of obj k of
        Some v \<Rightarrow> Own v
      | None \<Rightarrow> if k \<in> set object_prototype_keys then Inherited else Undefined)"

text \<open>
  A \<open>TypeError\<close> is what reading or writing a property of \<open>undefined\<close> throws.
  \<open>forEach\<close> with a callback that may throw stops at the first exception.
\<close>

datatype error = TypeError

fun for_each :: "('a \<Rightarrow> 's \<Rightarrow> error + 's) \<Rightarrow> 'a list \<Rightarrow> 's \<Rightarrow> error + 's" where
  "for_each f [] s = Inr s"
| "for_each f (x # xs) s = (case f x s of Inl e \<Rightarrow> Inl e | Inr s' \<Rightarrow> for_each f xs s')"

text \<open>
  \<open>[...new Set(xs)]\<close>: the distinct elements in the order of their first occurrence.
\<close>

definition set_spread :: "'a list \<Rightarrow> 'a list" where
  "set_spread xs = fold (\<lambda>x s. if x \<in> set s then s else s @ [x]) xs []"

section \<open>Metric categorizer (\<open>utils/metric_categorizer.js\<close>)\<close>

text \<open>
  Strings are sequences of code units; the letters outside ASCII in the Swedish texts
  are written by their code (\<open>0xE4\<close> a-umlaut, \<open>0xE5\<close> a-ring, \<open>0xF6\<close> o-umlaut).
\<close>

definition NON_SUMMABLE :: string where "NON_SUMMABLE = ''non_summable''"

definition SUMMABLE :: string where "SUMMABLE = ''summable''"

definition METADATA :: string where "METADATA = ''metadata''"

record MetricDefinition =
  key :: string
  displayName :: string
  category :: string
  description :: string
  canSum :: bool
  aggregationMethod :: string
  unit :: "string option"
  formatType :: string
  warningMessage :: "string option"

definition METRIC_DEFINITIONS :: "(string \<times> MetricDefinition) list" where
  "METRIC_DEFINITIONS =
     [(''reach'',
        \<lparr>key = ''reach'', displayName = ''R'' @ [CHR 0xE4] @ ''ckvidd'',
         category = NON_SUMMABLE,
         description = ''Antal unika personer som n'' @ [CHR 0xE5] @ ''ddes'',
         canSum = False, aggregationMethod = ''average'',
         unit = Some ''personer'', formatType = ''number'',
         warningMessage = Some (''Reach kan ALDRIG summeras '' @ [CHR 0xF6] @ ''ver veckor. Anv''
                                  @ [CHR 0xE4] @ ''nd genomsnitt.'')\<rparr>),
      (''engagements'',
        \<lparr>key = ''engagements'', displayName = ''Engagemang'',
         category = SUMMABLE,
         description = ''Totalt antal interaktioner'',
         canSum = True, aggregationMethod = ''sum'',
         unit = Some ''interaktioner'', formatType = ''number'',
         warningMessage = None\<rparr>),
      (''status'',
        \<lparr>key = ''status'', displayName = ''Status'',
         category = METADATA,
         description = ''Sidans status'',
         canSum = False, aggregationMethod = ''none'',
         unit = None, formatType = ''string'',
         warningMessage = None\<rparr>),
      (''comment'',
        \<lparr>key = ''comment'', displayName = ''Kommentar'',
         category = METADATA,
         description = ''Kommentarer'',
         canSum = False, aggregationMethod = ''none'',
         unit = None, formatType = ''string'',
         warningMessage = None\<rparr>)]"

text \<open>
  \<open>canSumMetric\<close> and \<open>getAggregationMethod\<close> return \<open>metric.canSum\<close> and
  \<open>metric.aggregationMethod\<close> when \<open>METRIC_DEFINITIONS[metricKey]\<close> is truthy; the
  result \<open>None\<close> is JavaScript's \<open>undefined\<close>, the value of these properties on a
  member of \<open>Object.prototype\<close>.
\<close>

definition canSumMetric :: "string \<Rightarrow> bool option" where
  "canSumMetric metricKey =
     (case get_property METRIC_DEFINITIONS metricKey of
        Own metric \<Rightarrow> Some (canSum metric)
      | Inherited \<Rightarrow> None
      | Undefined \<Rightarrow> Some False)"

definition getAggregationMethod :: "string \<Rightarrow> string option" where
  "getAggregationMethod metricKey =
     (case get_property METRIC_DEFINITIONS metricKey of
        Own metric \<Rightarrow> Some (aggregationMethod metric)
      | Inherited \<Rightarrow> None
      | Undefined \<Rightarrow> Some ''none'')"

text \<open>
  \<open>validateAggregationMethod\<close>. The second message is the template
  \<^verbatim>\<open>Felaktig aggregeringsmetod for ${metric.displayName}. \<close> and
  \<^verbatim>\<open>Anvand "${correctMethod}" istallet for "${attemptedMethod}". \<close> (with the Swedish
  letters) followed by \<^verbatim>\<open>metric.warningMessage || ''\<close>. A template renders
  \<open>undefined\<close> as the text \<open>undefined\<close>; the attempted method is a string, so it is
  never \<open>===\<close> to \<open>undefined\<close>. \<open>errorMessage = None\<close> is \<open>null\<close>.
\<close>

record ValidationResult =
  isValid :: bool
  errorMessage :: "string option"

definition wrong_method_message :: "string \<Rightarrow> string \<Rightarrow> string \<Rightarrow> string option \<Rightarrow> string" where
  "wrong_method_message name correctMethod attemptedMethod warning =
     ''Felaktig aggregeringsmetod f'' @ [CHR 0xF6] @ ''r '' @ name @ ''. ''
     @ ''Anv'' @ [CHR 0xE4] @ ''nd '' @ [CHR 0x22] @ correctMethod @ [CHR 0x22]
     @ '' ist'' @ [CHR 0xE4] @ ''llet f'' @ [CHR 0xF6] @ ''r '' @ [CHR 0x22] @ attemptedMethod
     @ [CHR 0x22] @ ''. ''
     @ (case warning of None \<Rightarrow> [] | Some w \<Rightarrow> w)"

definition validateAggregationMethod :: "string \<Rightarrow> string \<Rightarrow> ValidationResult" where
  "validateAggregationMethod metricKey attemptedMethod =
     (case get_property METRIC_DEFINITIONS metricKey of
        Undefined \<Rightarrow>
          \<lparr>isValid = False,
           errorMessage = Some (''Ok'' @ [CHR 0xE4] @ ''nd metric: '' @ metricKey)\<rparr>
      | Own metric \<Rightarrow>
          (let correctMethod = aggregationMethod metric
           in if attemptedMethod \<noteq> correctMethod
              then \<lparr>isValid = False,
                     errorMessage = Some (wrong_method_message (displayName metric)
                                            correctMethod attemptedMethod (warningMessage metric))\<rparr>
              else \<lparr>isValid = True, errorMessage = None\<rparr>)
      | Inherited \<Rightarrow>
          \<lparr>isValid = False,
           errorMessage = Some (wrong_method_message ''undefined'' ''undefined''
                                  attemptedMethod None)\<rparr>)"

section \<open>Aggregation service\<close>

text \<open>
  The period key \<^verbatim>\<open>`${year}_${week}`\<close>, and the month number
  \<open>new Date(startDate).getMonth() + 1\<close>. A date string \<open>YYYY-MM-DD\<close> is parsed as
  midnight UTC and \<open>getMonth\<close> reads it in the host's time zone; the model is the
  host at or east of UTC, where that month is the one written in the string, and
  start dates of the form \<open>YYYY-MM-DD\<close>, as the data model has them. The result
  \<open>None\<close> is \<open>NaN\<close>, what an invalid date gives (here: a string whose characters
  5 and 6 are not a month number).
\<close>

definition getPeriodKey :: "WeekPeriod \<Rightarrow> string" where
  "getPeriodKey p = show_int (year p) @ ''_'' @ show_int (week p)"










text \<open>
  The four grouping functions build the same shape of group: a heading (the page;
  the period; year, month and month name; year and quarter), the member records
  (\<open>weeks\<close>, called \<open>pages\<close> in \<open>aggregateByWeek\<close>) and the metrics
  \<open>totalEngagements\<close>, \<open>averageReach\<close> and the count (\<open>weekCount\<close>, called
  \<open>pageCount\<close> in \<open>aggregateByWeek\<close>).

  The body of each \<open>forEach\<close> is \<open>add_to_group\<close>: when \<open>groups[key]\<close> is falsy the
  group is created; then \<open>groups[key].weeks.push(data)\<close> and the two updates of the
  metrics. When \<open>groups[key]\<close> is a member of \<open>Object.prototype\<close> the test finds it
  truthy, no group is created, and \<open>groups[key].weeks\<close> is \<open>undefined\<close>: \<open>push\<close> throws.
\<close>

record GroupMetrics =
  totalEngagements :: int
  averageReach :: int
  weekCount :: nat

record 'h Group =
  heading :: 'h
  weeks :: "WeeklyPageData list"
  groupMetrics :: GroupMetrics

definition push_week :: "WeeklyPageData \<Rightarrow> 'h Group \<Rightarrow> 'h Group" where
  "push_week data g =
     g\<lparr>weeks := weeks g @ [data],
       groupMetrics := (groupMetrics g)
         \<lparr>totalEngagements := totalEngagements (groupMetrics g) + engagements (metrics data),
          weekCount := weekCount (groupMetrics g) + 1\<rparr>\<rparr>"

definition new_group :: "'h \<Rightarrow> 'h Group" where
  "new_group h =
     \<lparr>heading = h, weeks = [],
      groupMetrics = \<lparr>totalEngagements = 0, averageReach = 0, weekCount = 0\<rparr>\<rparr>"

definition add_to_group ::
  "(WeeklyPageData \<Rightarrow> string) \<Rightarrow> (WeeklyPageData \<Rightarrow> 'h) \<Rightarrow> WeeklyPageData
     \<Rightarrow> (string \<times> 'h Group) list \<Rightarrow> error + (string \<times> 'h Group) list" where
  "add_to_group key_of heading_of data groups =
     (case get_property groups (key_of data) of
        Undefined \<Rightarrow>
          Inr (AList.update (key_of data) (push_week data (new_group (heading_of data))) groups)
      | Own g \<Rightarrow> Inr (AList.update (key_of data) (push_week data g) groups)
      | Inherited \<Rightarrow> Inl TypeError)"

definition average_groups :: "(string \<times> 'h Group) list \<Rightarrow> (string \<times> 'h Group) list" where
  "average_groups groups =
     map (\<lambda>(k, g).
            (k, g\<lparr>groupMetrics := (groupMetrics g)
                    \<lparr>averageReach :=
                       calculateAverageReach (Some (map (\<lambda>w. reach (metrics w)) (weeks g)))\<rparr>\<rparr>))
         groups"

definition aggregate_by ::
  "(WeeklyPageData \<Rightarrow> string) \<Rightarrow> (WeeklyPageData \<Rightarrow> 'h) \<Rightarrow> WeeklyPageData list
     \<Rightarrow> error + (string \<times> 'h Group) list" where
  "aggregate_by key_of heading_of weeklyDataArray =
     (if length weeklyDataArray = 0 then Inr []
      else
        case for_each (add_to_group key_of heading_of) weeklyDataArray [] of
          Inl e \<Rightarrow> Inl e
        | Inr groups \<Rightarrow> Inr (average_groups groups))"

definition aggregateByPage :: "WeeklyPageData list \<Rightarrow> error + (string \<times> Page Group) list" where
  "aggregateByPage weeklyDataArray =
     aggregate_by (\<lambda>data. pageId (page data)) (\<lambda>data. page data) weeklyDataArray"




text \<open>
  \<open>createPivotTable\<close>. The default \<open>sort()\<close> orders strings by code units. The
  assignment \<open>pivotData[pageId].weeks[weekKey] = value\<close> writes an own property of the
  row's \<open>weeks\<close> object (a period key is never \<open>__proto__\<close>); when \<open>pivotData[pageId]\<close>
  is a member of \<open>Object.prototype\<close>, its \<open>weeks\<close> is \<open>undefined\<close> and the assignment
  throws. The empty input returns a table without the \<open>metric\<close> property.
\<close>

record PivotRow =
  row_page :: Page
  row_weeks :: "(string \<times> int) list"

record PivotTable =
  pivot_pages :: "string list"
  pivot_weeks :: "string list"
  pivot_data :: "(string \<times> PivotRow) list"
  pivot_metric :: "metric option"

definition add_to_pivot ::
  "metric \<Rightarrow> WeeklyPageData \<Rightarrow> (string \<times> PivotRow) list \<Rightarrow> error + (string \<times> PivotRow) list" where
  "add_to_pivot metric data pivotData =
     (let pid = pageId (page data); weekKey = getPeriodKey (period data)
      in case get_property pivotData pid of
           Undefined \<Rightarrow>
             Inr (AList.update pid
                    \<lparr>row_page = page data,
                     row_weeks = AList.update weekKey (metric_value metric data) []\<rparr> pivotData)
         | Own row \<Rightarrow>
             Inr (AList.update pid
                    (row\<lparr>row_weeks :=
                           AList.update weekKey (metric_value metric data) (row_weeks row)\<rparr>)
                    pivotData)
         | Inherited \<Rightarrow> Inl TypeError)"

definition createPivotTable :: "WeeklyPageData list \<Rightarrow> metric \<Rightarrow> error + PivotTable" where
  "createPivotTable weeklyDataArray metric =
     (if length weeklyDataArray = 0
      then Inr \<lparr>pivot_pages = [], pivot_weeks = [], pivot_data = [], pivot_metric = None\<rparr>
      else
        let uniquePages = set_spread (map (\<lambda>d. pageId (page d)) weeklyDataArray);
            uniqueWeeks = sort (set_spread (map (\<lambda>d. getPeriodKey (period d)) weeklyDataArray))
        in case for_each (add_to_pivot metric) weeklyDataArray [] of
             Inl e \<Rightarrow> Inl e
           | Inr pivotData \<Rightarrow>
               Inr \<lparr>pivot_pages = uniquePages, pivot_weeks = uniqueWeeks,
                    pivot_data = pivotData, pivot_metric = Some metric\<rparr>)"

text \<open>
  Reading a cell back, \<open>data[pageId].weeks[periodKey]\<close>: \<open>None\<close> when there is no such
  own row or no such own cell.
\<close>

definition pivot_cell :: "PivotTable \<Rightarrow> string \<Rightarrow> string \<Rightarrow> int option" where
  "pivot_cell t pid weekKey =
     (case get_property (pivot_data t) pid of
        Own row \<Rightarrow> (case get_property (row_weeks row) weekKey of Own v \<Rightarrow> Some v | _ \<Rightarrow> None)
      | _ \<Rightarrow> None)"

section \<open>Notions of the specification\<close>


text \<open>
  The specification's notion of a run: \<open>k\<close> consecutive strictly increasing steps
  starting at index \<open>i\<close> of the chronological value sequence; and the length of
  the longest run of a non-empty sequence.
\<close>

definition growth_run :: "int list \<Rightarrow> nat \<Rightarrow> nat \<Rightarrow> bool" where
  "growth_run vs i k \<longleftrightarrow> i + k < length vs \<and> (\<forall>j. i \<le> j \<and> j < i + k \<longrightarrow> vs ! j < vs ! Suc j)"

definition longest_run :: "int list \<Rightarrow> nat" where
  "longest_run vs = Max {k. \<exists>i. growth_run vs i k}"




section \<open>Example records\<close>

text \<open>
  A weekly record for the examples: page id, week number, start date, reach and
  engagements, in the year 2025 with status \<open>OK\<close>.
\<close>

definition weekly_record :: "string \<Rightarrow> int \<Rightarrow> string \<Rightarrow> int \<Rightarrow> int \<Rightarrow> WeeklyPageData" where
  "weekly_record pid w start r e =
     \<lparr>page = \<lparr>pageId = pid, pageName = ''Page '' @ pid\<rparr>,
      period = \<lparr>year = 2025, week = w, startDate = start, endDate = start\<rparr>,
      metrics = \<lparr>reach = r, engagements = e\<rparr>,
      status = ''OK'', comment = None\<rparr>"

section \<open>Rounding and folds\<close>





lemma js_round_of_int [simp]: "js_round (of_int k) = k"
  unfolding js_round_def by linarith


lemma js_round_0 [simp]: "js_round 0 = 0"
  using js_round_of_int [of 0] by simp

lemma js_round_1 [simp]: "js_round 1 = 1"
  using js_round_of_int [of 1] by simp

lemma js_round_numeral [simp]: "js_round (numeral n) = numeral n"
  using js_round_of_int [of "numeral n"] by simp

lemma js_round_neg_numeral [simp]: "js_round (- numeral n) = - numeral n"
  using js_round_of_int [of "- numeral n"] by simp

lemma js_round_half [simp]: "js_round (1 / 2) = 1" "js_round (- (1 / 2)) = 0"
  by (simp_all add: js_round_def)

section \<open>Average reach\<close>



section \<open>Week-over-week change\<close>



section \<open>Reach-sum heuristic\<close>

text \<open>
  C9. \<open>detectIncorrectReachSum(value, periodCount)\<close> returns a warning exactly when
  \<open>periodCount > 1\<close> and \<open>value > 10,000,000\<close>, and \<open>null\<close> otherwise; it is defined
  on every pair of integers (there is no throwing path), zero and the two bounds
  included.
\<close>

theorem detectIncorrectReachSum_spec:
  "(detectIncorrectReachSum toLocaleString candidateValue periodCount \<noteq> None)
     = (periodCount > 1 \<and> candidateValue > 10000000)
   \<and> detectIncorrectReachSum toLocaleString 10000001 2 \<noteq> None
   \<and> detectIncorrectReachSum toLocaleString 10000000 2 = None
   \<and> detectIncorrectReachSum toLocaleString 10000001 1 = None
   \<and> detectIncorrectReachSum toLocaleString 0 0 = None"
  by (simp add: detectIncorrectReachSum_def Let_def)

section \<open>Metric registry\<close>

lemma registry_keys:
  "map_of METRIC_DEFINITIONS k = Some m \<Longrightarrow>
     k \<in> {''reach'', ''engagements'', ''status'', ''comment''}"
  by (auto simp add: METRIC_DEFINITIONS_def split: if_splits)

lemma registry_not_inherited:
  "k \<in> set object_prototype_keys \<Longrightarrow> map_of METRIC_DEFINITIONS k = None"
  by (auto simp add: METRIC_DEFINITIONS_def object_prototype_keys_def)

lemma get_property_own:
  "map_of obj k = Some v \<Longrightarrow> get_property obj k = Own v"
  by (simp add: get_property_def)

lemma get_property_undefined:
  "map_of obj k = None \<Longrightarrow> k \<notin> set object_prototype_keys \<Longrightarrow> get_property obj k = Undefined"
  by (simp add: get_property_def)

lemma get_property_inherited:
  "map_of obj k = None \<Longrightarrow> k \<in> set object_prototype_keys \<Longrightarrow> get_property obj k = Inherited"
  by (simp add: get_property_def)

lemma registry_methods:
  "map_of METRIC_DEFINITIONS ''reach'' = Some m \<Longrightarrow> aggregationMethod m = ''average''"
  "map_of METRIC_DEFINITIONS ''engagements'' = Some m \<Longrightarrow> aggregationMethod m = ''sum''"
  "map_of METRIC_DEFINITIONS ''status'' = Some m \<Longrightarrow> aggregationMethod m = ''none''"
  "map_of METRIC_DEFINITIONS ''comment'' = Some m \<Longrightarrow> aggregationMethod m = ''none''"
  by (auto simp add: METRIC_DEFINITIONS_def)

text \<open>
  C7. For a registered metric key, with registered definition \<open>m\<close>,
  \<open>validateAggregationMethod\<close> returns an invalid result exactly when the attempted
  method differs from \<open>m\<close>'s aggregation method, then with an error message that
  quotes the correct method, and otherwise the valid result with no message (a value
  in every case: the function has no throwing path).
  \<open>validateAggregationMethod('reach', 'sum')\<close> is invalid and its message names
  \<open>average\<close>.
\<close>

theorem validateAggregationMethod_registered:
  assumes "map_of METRIC_DEFINITIONS metricKey = Some m"
  shows "(isValid (validateAggregationMethod metricKey attempted)
            \<longleftrightarrow> attempted = aggregationMethod m)
    \<and> (attempted = aggregationMethod m \<longrightarrow>
          validateAggregationMethod metricKey attempted
            = \<lparr>isValid = True, errorMessage = None\<rparr>)
    \<and> (attempted \<noteq> aggregationMethod m \<longrightarrow>
          (\<exists>before after.
             validateAggregationMethod metricKey attempted
               = \<lparr>isValid = False,
                  errorMessage = Some (before @ [CHR 0x22] @ aggregationMethod m @ [CHR 0x22]
                                         @ after)\<rparr>))
    \<and> (\<exists>before after.
          validateAggregationMethod ''reach'' ''sum''
            = \<lparr>isValid = False,
               errorMessage = Some (before @ [CHR 0x22] @ ''average'' @ [CHR 0x22] @ after)\<rparr>)"
proof -
  have own: "get_property METRIC_DEFINITIONS metricKey = Own m"
    using assms by (rule get_property_own)
  have valid: "validateAggregationMethod metricKey attempted
      = \<lparr>isValid = True, errorMessage = None\<rparr>" if "attempted = aggregationMethod m"
    using that by (simp add: validateAggregationMethod_def own)
  have invalid: "validateAggregationMethod k a
      = \<lparr>isValid = False,
         errorMessage = Some ((''Felaktig aggregeringsmetod f'' @ [CHR 0xF6] @ ''r ''
                  @ displayName d @ ''. '' @ ''Anv'' @ [CHR 0xE4] @ ''nd '')
              @ [CHR 0x22] @ aggregationMethod d @ [CHR 0x22]
              @ ('' ist'' @ [CHR 0xE4] @ ''llet f'' @ [CHR 0xF6] @ ''r '' @ [CHR 0x22] @ a
                   @ [CHR 0x22] @ ''. ''
                   @ (case warningMessage d of None \<Rightarrow> [] | Some w \<Rightarrow> w)))\<rparr>"
    if "map_of METRIC_DEFINITIONS k = Some d" and "a \<noteq> aggregationMethod d" for k a d
    using that
    by (simp add: validateAggregationMethod_def get_property_own wrong_method_message_def)
  have quoted: "\<exists>before after.
      validateAggregationMethod k a
        = \<lparr>isValid = False,
           errorMessage = Some (before @ [CHR 0x22] @ aggregationMethod d @ [CHR 0x22] @ after)\<rparr>"
    if "map_of METRIC_DEFINITIONS k = Some d" and "a \<noteq> aggregationMethod d" for k a d
    using invalid [OF that] by blast
  have reach: "map_of METRIC_DEFINITIONS ''reach'' = Some (the (map_of METRIC_DEFINITIONS ''reach''))"
    by (simp add: METRIC_DEFINITIONS_def)
  have reach_sum: "\<exists>before after.
      validateAggregationMethod ''reach'' ''sum''
        = \<lparr>isValid = False,
           errorMessage = Some (before @ [CHR 0x22] @ ''average'' @ [CHR 0x22] @ after)\<rparr>"
    using quoted [OF reach, of "''sum''"] registry_methods(1) [OF reach] by simp
  have iff: "isValid (validateAggregationMethod metricKey attempted)
      \<longleftrightarrow> attempted = aggregationMethod m"
  proof (cases "attempted = aggregationMethod m")
    case True
    then show ?thesis using valid [OF True] by simp
  next
    case False
    then show ?thesis using invalid [OF assms False] by simp
  qed
  show ?thesis using iff valid quoted [OF assms] reach_sum by blast
qed

theorem validateAggregationMethod_registered_witness:
  "validateAggregationMethod ''engagements'' ''sum'' = \<lparr>isValid = True, errorMessage = None\<rparr>
   \<and> \<not> isValid (validateAggregationMethod ''reach'' ''sum'')
   \<and> \<not> isValid (validateAggregationMethod ''status'' ''average'')"
proof -
  have e: "map_of METRIC_DEFINITIONS ''engagements''
      = Some (the (map_of METRIC_DEFINITIONS ''engagements''))"
    by (simp add: METRIC_DEFINITIONS_def)
  have r: "map_of METRIC_DEFINITIONS ''reach'' = Some (the (map_of METRIC_DEFINITIONS ''reach''))"
    by (simp add: METRIC_DEFINITIONS_def)
  have s: "map_of METRIC_DEFINITIONS ''status'' = Some (the (map_of METRIC_DEFINITIONS ''status''))"
    by (simp add: METRIC_DEFINITIONS_def)
  show ?thesis
    using validateAggregationMethod_registered [OF e, of "''sum''"]
      validateAggregationMethod_registered [OF r, of "''sum''"]
      validateAggregationMethod_registered [OF s, of "''average''"]
      registry_methods(2) [OF e] registry_methods(1) [OF r] registry_methods(3) [OF s]
    by simp
qed

text \<open>
  The text of the message for \<open>('reach', 'sum')\<close>.
\<close>

lemma validateAggregationMethod_reach_sum:
  "validateAggregationMethod ''reach'' ''sum''
     = \<lparr>isValid = False,
        errorMessage = Some (''Felaktig aggregeringsmetod f'' @ [CHR 0xF6] @ ''r R'' @ [CHR 0xE4]
          @ ''ckvidd. Anv'' @ [CHR 0xE4] @ ''nd '' @ [CHR 0x22] @ ''average'' @ [CHR 0x22]
          @ '' ist'' @ [CHR 0xE4] @ ''llet f'' @ [CHR 0xF6] @ ''r '' @ [CHR 0x22] @ ''sum''
          @ [CHR 0x22] @ ''. Reach kan ALDRIG summeras '' @ [CHR 0xF6] @ ''ver veckor. Anv''
          @ [CHR 0xE4] @ ''nd genomsnitt.'')\<rparr>"
  by (simp add: validateAggregationMethod_def get_property_def METRIC_DEFINITIONS_def
      wrong_method_message_def)

section \<open>Unknown metric keys\<close>

text \<open>
  A key that is neither registered nor the name of a member of \<open>Object.prototype\<close>
  gets the defaults: not summable, method \<open>none\<close>, and the unknown-metric message.
\<close>

lemma unknown_metric_defaults:
  assumes "metricKey \<notin> {''reach'', ''engagements'', ''status'', ''comment''}"
    and "metricKey \<notin> set object_prototype_keys"
  shows "canSumMetric metricKey = Some False"
    and "getAggregationMethod metricKey = Some ''none''"
    and "validateAggregationMethod metricKey attempted
           = \<lparr>isValid = False,
              errorMessage = Some (''Ok'' @ [CHR 0xE4] @ ''nd metric: '' @ metricKey)\<rparr>"
proof -
  have "map_of METRIC_DEFINITIONS metricKey = None"
    using assms(1) registry_keys [of metricKey] by (cases "map_of METRIC_DEFINITIONS metricKey") auto
  then have "get_property METRIC_DEFINITIONS metricKey = Undefined"
    using assms(2) by (rule get_property_undefined)
  then show "canSumMetric metricKey = Some False"
    and "getAggregationMethod metricKey = Some ''none''"
    and "validateAggregationMethod metricKey attempted
           = \<lparr>isValid = False,
              errorMessage = Some (''Ok'' @ [CHR 0xE4] @ ''nd metric: '' @ metricKey)\<rparr>"
    by (simp_all add: canSumMetric_def getAggregationMethod_def validateAggregationMethod_def)
qed

text \<open>
  C10. The claim is that every key outside the registry gets \<open>false\<close>, \<open>'none'\<close> and
  the unknown-metric error. For the key \<open>constructor\<close>, which is not registered,
  \<open>METRIC_DEFINITIONS['constructor']\<close> is the inherited \<open>Object\<close> function: the
  lookups do not take their default branch, \<open>canSumMetric\<close> and
  \<open>getAggregationMethod\<close> return \<open>undefined\<close>, and \<open>validateAggregationMethod\<close>
  reports a wrong method for the metric \<open>undefined\<close> instead of an unknown metric.
\<close>

theorem unknown_metric_constructor:
  "''constructor'' \<notin> {''reach'', ''engagements'', ''status'', ''comment''}
   \<and> canSumMetric ''constructor'' = None
   \<and> getAggregationMethod ''constructor'' = None
   \<and> validateAggregationMethod ''constructor'' ''sum''
       = \<lparr>isValid = False,
          errorMessage = Some (''Felaktig aggregeringsmetod f'' @ [CHR 0xF6] @ ''r undefined. Anv''
            @ [CHR 0xE4] @ ''nd '' @ [CHR 0x22] @ ''undefined'' @ [CHR 0x22]
            @ '' ist'' @ [CHR 0xE4] @ ''llet f'' @ [CHR 0xF6] @ ''r '' @ [CHR 0x22] @ ''sum''
            @ [CHR 0x22] @ ''. '')\<rparr>
   \<and> validateAggregationMethod ''constructor'' ''sum''
       \<noteq> \<lparr>isValid = False,
          errorMessage = Some (''Ok'' @ [CHR 0xE4] @ ''nd metric: constructor'')\<rparr>"
proof -
  have "''constructor'' \<in> set object_prototype_keys"
    by (simp add: object_prototype_keys_def)
  then have "get_property METRIC_DEFINITIONS ''constructor'' = Inherited"
    by (intro get_property_inherited registry_not_inherited)
  then show ?thesis
    by (simp add: canSumMetric_def getAggregationMethod_def validateAggregationMethod_def
        wrong_method_message_def)
qed

section \<open>Descriptive statistics\<close>











section \<open>Ranking\<close>

lemma ranked_items:
  "rankPagesByMetric ds m =
    map (\<lambda>(i, item). item\<lparr>rank := Suc i\<rparr>)
      (zip [0..<length ds]
        (sort_key (\<lambda>a. - ranked_value a)
          (map (\<lambda>data. \<lparr>rank = 0, ranked_page = page data,
                           ranked_value = metric_value m data,
                           ranked_status = status data\<rparr>) ds)))"
  by (simp add: rankPagesByMetric_def enumerate_eq_zip)

lemma map_zip_update:
  assumes "length is = length xs" and "\<And>i x. g (x\<lparr>rank := h i\<rparr>) = g x"
  shows "map g (map (\<lambda>(i, item). item\<lparr>rank := h i\<rparr>) (zip is xs)) = map g xs"
  using assms(1)
  by (induction "is" xs rule: list_induct2) (simp_all add: assms(2))

lemma map_zip_rank:
  assumes "length is = length xs"
  shows "map rank (map (\<lambda>(i, item). item\<lparr>rank := h i\<rparr>) (zip is xs)) = map h is"
  using assms by (induction "is" xs rule: list_induct2) simp_all

lemma sorted_neg_nth:
  assumes "sorted (map (\<lambda>x. - f x) xs)" and "i \<le> j" and "j < length xs"
  shows "(f (xs ! j) :: int) \<le> f (xs ! i)"
proof -
  have "map (\<lambda>x. - f x) xs ! i \<le> map (\<lambda>x. - f x) xs ! j"
    using assms by (intro sorted_nth_mono) simp_all
  then show ?thesis using assms by simp
qed

text \<open>
  C8. \<open>rankPagesByMetric\<close> returns a list as long as its input, with the ranks
  \<open>1, \<dots>, n\<close> in this order, the values non-increasing (so strictly decreasing
  between entries of different value), and among the entries of one value the pages
  in their input order; the entries are the input's pages with their values and
  statuses; the empty input gives the empty list.
\<close>

theorem rankPagesByMetric_spec:
  "(let r = rankPagesByMetric ds m;
        item = (\<lambda>e. (ranked_page e, ranked_value e, ranked_status e));
        entry = (\<lambda>d. (page d, metric_value m d, status d))
    in length r = length ds
       \<and> map rank r = [1..<Suc (length ds)]
       \<and> (\<forall>i j. i \<le> j \<and> j < length r \<longrightarrow> ranked_value (r ! j) \<le> ranked_value (r ! i))
       \<and> (\<forall>i j. i < j \<and> j < length r \<and> ranked_value (r ! i) \<noteq> ranked_value (r ! j)
                 \<longrightarrow> ranked_value (r ! j) < ranked_value (r ! i))
       \<and> (\<forall>v. filter (\<lambda>e. ranked_value e = v) (map (\<lambda>e. e\<lparr>rank := 0\<rparr>) r)
               = map (\<lambda>d. \<lparr>rank = 0, ranked_page = page d, ranked_value = metric_value m d,
                             ranked_status = status d\<rparr>)
                   (filter (\<lambda>d. metric_value m d = v) ds))
       \<and> mset (map item r) = mset (map entry ds))
   \<and> rankPagesByMetric [] m = []"
proof -
  let ?items = "map (\<lambda>data. \<lparr>rank = 0, ranked_page = page data,
                           ranked_value = metric_value m data,
                           ranked_status = status data\<rparr>) ds"
  let ?sorted = "sort_key (\<lambda>a. - ranked_value a) ?items"
  let ?r = "rankPagesByMetric ds m"
  have r: "?r = map (\<lambda>(i, item). item\<lparr>rank := Suc i\<rparr>) (zip [0..<length ds] ?sorted)"
    by (rule ranked_items)
  have len: "length [0..<length ds] = length ?sorted" by simp
  have length: "length ?r = length ds"
    unfolding r by simp
  have ranks: "map rank ?r = [1..<Suc (length ds)]"
    unfolding r map_zip_rank [OF len] by (simp add: map_Suc_upt)
  have vals: "map ranked_value ?r = map ranked_value ?sorted"
    unfolding r by (rule map_zip_update [OF len]) simp
  have val_nth: "ranked_value (?r ! i) = ranked_value (?sorted ! i)" if "i < length ds" for i
  proof -
    have "map ranked_value ?r ! i = map ranked_value ?sorted ! i" by (simp only: vals)
    then show ?thesis using that length by simp
  qed
  have mono: "ranked_value (?r ! j) \<le> ranked_value (?r ! i)" if "i \<le> j" "j < length ?r" for i j
  proof -
    have "ranked_value (?sorted ! j) \<le> ranked_value (?sorted ! i)"
      using that length by (intro sorted_neg_nth) (simp_all add: sorted_sort_key)
    then show ?thesis using that length by (simp add: val_nth)
  qed
  have strict: "ranked_value (?r ! j) < ranked_value (?r ! i)"
    if "i < j" "j < length ?r" "ranked_value (?r ! i) \<noteq> ranked_value (?r ! j)" for i j
    using mono [of i j] that by simp
  have unranked: "map (\<lambda>e. e\<lparr>rank := 0\<rparr>) ?r = ?sorted"
  proof -
    have "map (\<lambda>e. e\<lparr>rank := 0\<rparr>) ?r = map (\<lambda>e. e\<lparr>rank := 0\<rparr>) ?sorted"
      unfolding r by (rule map_zip_update [OF len]) simp
    also have "\<dots> = ?sorted"
      by (intro map_idI) auto
    finally show ?thesis .
  qed
  have stable: "filter (\<lambda>e. ranked_value e = v) (map (\<lambda>e. e\<lparr>rank := 0\<rparr>) ?r)
      = map (\<lambda>d. \<lparr>rank = 0, ranked_page = page d, ranked_value = metric_value m d,
                    ranked_status = status d\<rparr>)
          (filter (\<lambda>d. metric_value m d = v) ds)" for v
  proof -
    have "filter (\<lambda>e. ranked_value e = v) ?sorted
        = filter (\<lambda>e. - ranked_value e = - v) ?sorted" by simp
    also have "\<dots> = filter (\<lambda>e. - ranked_value e = - v) ?items"
      by (rule sort_key_stable)
    also have "\<dots> = map (\<lambda>d. \<lparr>rank = 0, ranked_page = page d, ranked_value = metric_value m d,
                    ranked_status = status d\<rparr>)
          (filter (\<lambda>d. metric_value m d = v) ds)"
      by (simp add: filter_map comp_def)
    finally show ?thesis unfolding unranked .
  qed
  have perm: "mset (map (\<lambda>e. (ranked_page e, ranked_value e, ranked_status e)) ?r)
      = mset (map (\<lambda>d. (page d, metric_value m d, status d)) ds)"
  proof -
    have "map (\<lambda>e. (ranked_page e, ranked_value e, ranked_status e)) ?r
        = map (\<lambda>e. (ranked_page e, ranked_value e, ranked_status e)) ?sorted"
      unfolding r by (rule map_zip_update [OF len]) simp
    then have "mset (map (\<lambda>e. (ranked_page e, ranked_value e, ranked_status e)) ?r)
        = mset (map (\<lambda>e. (ranked_page e, ranked_value e, ranked_status e)) ?items)"
      by (simp only: mset_map mset_sort)
    then show ?thesis by (simp add: comp_def)
  qed
  have empty: "rankPagesByMetric [] m = []"
    by (simp add: rankPagesByMetric_def)
  show ?thesis
    unfolding Let_def using length ranks mono strict stable perm empty by blast
qed

theorem rankPagesByMetric_spec_witness:
  "rankPagesByMetric
     [weekly_record ''A'' 41 ''2025-10-06'' 100 50,
      weekly_record ''B'' 41 ''2025-10-06'' 100 70,
      weekly_record ''C'' 41 ''2025-10-06'' 100 50] Engagements
   = [\<lparr>rank = 1, ranked_page = \<lparr>pageId = ''B'', pageName = ''Page B''\<rparr>,
         ranked_value = 70, ranked_status = ''OK''\<rparr>,
      \<lparr>rank = 2, ranked_page = \<lparr>pageId = ''A'', pageName = ''Page A''\<rparr>,
         ranked_value = 50, ranked_status = ''OK''\<rparr>,
      \<lparr>rank = 3, ranked_page = \<lparr>pageId = ''C'', pageName = ''Page C''\<rparr>,
         ranked_value = 50, ranked_status = ''OK''\<rparr>]
   \<and> map rank (rankPagesByMetric
        [weekly_record ''A'' 41 ''2025-10-06'' 100 50,
         weekly_record ''B'' 41 ''2025-10-06'' 100 70,
         weekly_record ''C'' 41 ''2025-10-06'' 100 50] Engagements) = [1, 2, 3]"
proof -
  have evaluated: "rankPagesByMetric
     [weekly_record ''A'' 41 ''2025-10-06'' 100 50,
      weekly_record ''B'' 41 ''2025-10-06'' 100 70,
      weekly_record ''C'' 41 ''2025-10-06'' 100 50] Engagements
   = [\<lparr>rank = 1, ranked_page = \<lparr>pageId = ''B'', pageName = ''Page B''\<rparr>,
         ranked_value = 70, ranked_status = ''OK''\<rparr>,
      \<lparr>rank = 2, ranked_page = \<lparr>pageId = ''A'', pageName = ''Page A''\<rparr>,
         ranked_value = 50, ranked_status = ''OK''\<rparr>,
      \<lparr>rank = 3, ranked_page = \<lparr>pageId = ''C'', pageName = ''Page C''\<rparr>,
         ranked_value = 50, ranked_status = ''OK''\<rparr>]"
    by (simp add: rankPagesByMetric_def weekly_record_def enumerate_eq_zip upt_rec)
  show ?thesis
    using rankPagesByMetric_spec
      [of "[weekly_record ''A'' 41 ''2025-10-06'' 100 50,
            weekly_record ''B'' 41 ''2025-10-06'' 100 70,
            weekly_record ''C'' 41 ''2025-10-06'' 100 50]" Engagements]
    unfolding Let_def evaluated by simp
qed

section \<open>Consistent growth\<close>

lemma growth_run_zero: "i < length vs \<Longrightarrow> growth_run vs i 0"
  by (simp add: growth_run_def)

lemma growth_run_extend:
  assumes "growth_run vs s k" and "Suc (s + k) < length vs" and "vs ! (s + k) < vs ! Suc (s + k)"
  shows "growth_run vs s (Suc k)"
  unfolding growth_run_def
proof (intro conjI allI impI)
  show "s + Suc k < length vs" using assms(2) by simp
next
  fix j assume j: "s \<le> j \<and> j < s + Suc k"
  show "vs ! j < vs ! Suc j"
  proof (cases "j = s + k")
    case True
    then show ?thesis using assms(3) by simp
  next
    case False
    then have "s \<le> j \<and> j < s + k" using j by simp
    then show ?thesis using assms(1) unfolding growth_run_def by blast
  qed
qed

lemma growth_run_shrink:
  assumes "growth_run vs s (Suc k)"
  shows "growth_run vs s k" and "vs ! (s + k) < vs ! Suc (s + k)"
  using assms unfolding growth_run_def by auto

lemma growth_run_bound: "growth_run vs s k \<Longrightarrow> s + k < length vs"
  by (simp add: growth_run_def)

lemma growth_loop_invariant:
  assumes "vs = map (metric_value metric) sd"
    and "0 < i" and "i \<le> length sd" and "c < i"
    and "growth_run vs (i - 1 - c) c"
    and "\<And>s k. growth_run vs s k \<Longrightarrow> s + k = i - 1 \<Longrightarrow> k \<le> c"
    and "\<exists>s. growth_run vs s m \<and> s + m < i"
    and "\<And>s k. growth_run vs s k \<Longrightarrow> s + k < i \<Longrightarrow> k \<le> m"
  shows "(\<exists>s. growth_run vs s (growth_loop metric sd i c m))
    \<and> (\<forall>s k. growth_run vs s k \<longrightarrow> k \<le> growth_loop metric sd i c m)"
  using assms
proof (induction metric sd i c m rule: growth_loop.induct)
  case (1 metric sd i c m)
  note vs = "1.prems"(1)
  have len: "length vs = length sd" using vs by simp
  show ?case
  proof (cases "i < length sd")
    case False
    then have i: "i = length sd" using "1.prems"(3) by simp
    have res: "growth_loop metric sd i c m = m"
      using False by (simp add: growth_loop.simps)
    have "k \<le> m" if "growth_run vs s k" for s k
      using that growth_run_bound [OF that] "1.prems"(8) [OF that] i len by simp
    then show ?thesis unfolding res using "1.prems"(7) by blast
  next
    case True
    have cmp: "metric_value metric (sd ! i) > metric_value metric (sd ! (i - 1))
        \<longleftrightarrow> vs ! (i - 1) < vs ! i"
      using True "1.prems"(2) vs by simp
    let ?s0 = "i - 1 - c"
    have s0: "?s0 + c = i - 1" using "1.prems"(4) by simp
    show ?thesis
    proof (cases "vs ! (i - 1) < vs ! i")
      case grow: True
      have res: "growth_loop metric sd i c m
          = growth_loop metric sd (i + 1) (c + 1) (max m (c + 1))"
        using True grow cmp by (subst growth_loop.simps) simp
      have run': "growth_run vs ?s0 (Suc c)"
      proof (rule growth_run_extend [OF "1.prems"(5)])
        show "Suc (?s0 + c) < length vs" using s0 True "1.prems"(2) len by simp
        show "vs ! (?s0 + c) < vs ! Suc (?s0 + c)"
          using grow s0 "1.prems"(2) by simp
      qed
      have ending: "k \<le> c + 1" if r: "growth_run vs s k" and e: "s + k = i + 1 - 1" for s k
      proof (cases k)
        case 0
        then show ?thesis by simp
      next
        case (Suc k')
        have "growth_run vs s k'" using r Suc growth_run_shrink(1) by blast
        moreover have "s + k' = i - 1" using e Suc by simp
        ultimately have "k' \<le> c" by (rule "1.prems"(6))
        then show ?thesis using Suc by simp
      qed
      have attained: "\<exists>s. growth_run vs s (max m (c + 1)) \<and> s + max m (c + 1) < i + 1"
      proof (cases "c + 1 \<le> m")
        case le: True
        then have "max m (c + 1) = m" by simp
        then show ?thesis using "1.prems"(7) by auto
      next
        case gt: False
        then have mx: "max m (c + 1) = Suc c" by simp
        have "?s0 + Suc c < i + 1" using s0 "1.prems"(2) by simp
        then show ?thesis unfolding mx using run' by blast
      qed
      have bound: "k \<le> max m (c + 1)" if r: "growth_run vs s k" and e: "s + k < i + 1" for s k
      proof (cases "s + k < i")
        case True
        then have "k \<le> m" using r by (intro "1.prems"(8))
        then show ?thesis by simp
      next
        case False
        then have "s + k = i + 1 - 1" using e by simp
        then have "k \<le> c + 1" using r by (intro ending)
        then show ?thesis by simp
      qed
      have "(\<exists>s. growth_run vs s (growth_loop metric sd (i + 1) (c + 1) (max m (c + 1))))
          \<and> (\<forall>s k. growth_run vs s k
                \<longrightarrow> k \<le> growth_loop metric sd (i + 1) (c + 1) (max m (c + 1)))"
      proof (rule "1.IH"(1) [OF True _ vs])
        show "metric_value metric (sd ! (i - 1)) < metric_value metric (sd ! i)"
          using grow cmp by simp
        show "0 < i + 1" by simp
        show "i + 1 \<le> length sd" using True by simp
        show "c + 1 < i + 1" using "1.prems"(4) by simp
        show "growth_run vs (i + 1 - 1 - (c + 1)) (c + 1)"
          using run' "1.prems"(4) by simp
        show "\<And>s k. growth_run vs s k \<Longrightarrow> s + k = i + 1 - 1 \<Longrightarrow> k \<le> c + 1"
          by (rule ending)
        show "\<exists>s. growth_run vs s (max m (c + 1)) \<and> s + max m (c + 1) < i + 1"
          by (rule attained)
        show "\<And>s k. growth_run vs s k \<Longrightarrow> s + k < i + 1 \<Longrightarrow> k \<le> max m (c + 1)"
          by (rule bound)
      qed
      then show ?thesis unfolding res .
    next
      case stay: False
      have res: "growth_loop metric sd i c m = growth_loop metric sd (i + 1) 0 m"
        using True stay cmp by (subst growth_loop.simps) simp
      have ending: "k \<le> 0" if r: "growth_run vs s k" and e: "s + k = i + 1 - 1" for s k
      proof (cases k)
        case 0
        then show ?thesis by simp
      next
        case (Suc k')
        have "vs ! (s + k') < vs ! Suc (s + k')"
          using r Suc growth_run_shrink(2) by blast
        moreover have "s + k' = i - 1" "Suc (s + k') = i" using e Suc by simp_all
        ultimately show ?thesis using stay by simp
      qed
      have bound: "k \<le> m" if r: "growth_run vs s k" and e: "s + k < i + 1" for s k
      proof (cases "s + k < i")
        case True
        then show ?thesis using r by (intro "1.prems"(8))
      next
        case False
        then have "s + k = i + 1 - 1" using e by simp
        then have "k \<le> 0" using r by (intro ending)
        then show ?thesis by simp
      qed
      have "(\<exists>s. growth_run vs s (growth_loop metric sd (i + 1) 0 m))
          \<and> (\<forall>s k. growth_run vs s k \<longrightarrow> k \<le> growth_loop metric sd (i + 1) 0 m)"
      proof (rule "1.IH"(2) [OF True _ vs])
        show "\<not> metric_value metric (sd ! (i - 1)) < metric_value metric (sd ! i)"
          using stay cmp by simp
        show "0 < i + 1" by simp
        show "i + 1 \<le> length sd" using True by simp
        show "0 < i + 1" by simp
        show "growth_run vs (i + 1 - 1 - 0) 0"
          using True len by (simp add: growth_run_zero)
        show "\<And>s k. growth_run vs s k \<Longrightarrow> s + k = i + 1 - 1 \<Longrightarrow> k \<le> 0"
          by (rule ending)
        show "\<exists>s. growth_run vs s m \<and> s + m < i + 1"
          using "1.prems"(7) by auto
        show "\<And>s k. growth_run vs s k \<Longrightarrow> s + k < i + 1 \<Longrightarrow> k \<le> m"
          by (rule bound)
      qed
      then show ?thesis unfolding res .
    qed
  qed
qed

lemma growth_loop_longest_run:
  assumes "sd \<noteq> []"
  shows "growth_loop metric sd 1 0 0 = longest_run (map (metric_value metric) sd)"
proof -
  let ?vs = "map (metric_value metric) sd"
  have zero: "growth_run ?vs 0 0" using assms by (simp add: growth_run_zero)
  have inv: "(\<exists>s. growth_run ?vs s (growth_loop metric sd 1 0 0))
    \<and> (\<forall>s k. growth_run ?vs s k \<longrightarrow> k \<le> growth_loop metric sd 1 0 0)"
  proof (rule growth_loop_invariant [OF refl])
    show "(0::nat) < 1" by simp
    show "1 \<le> length sd" using assms by (cases sd) simp_all
    show "(0::nat) < 1" by simp
    show "growth_run ?vs (1 - 1 - 0) 0" using zero by simp
    show "\<And>s k. growth_run ?vs s k \<Longrightarrow> s + k = 1 - 1 \<Longrightarrow> k \<le> 0" by simp
    show "\<exists>s. growth_run ?vs s 0 \<and> s + 0 < 1" using zero by auto
    show "\<And>s k. growth_run ?vs s k \<Longrightarrow> s + k < 1 \<Longrightarrow> k \<le> 0" by simp
  qed
  have fin: "finite {k. \<exists>i. growth_run ?vs i k}"
  proof (rule finite_subset)
    show "{k. \<exists>i. growth_run ?vs i k} \<subseteq> {..<length ?vs}"
      using growth_run_bound by fastforce
  qed simp
  have "Max {k. \<exists>i. growth_run ?vs i k} = growth_loop metric sd 1 0 0"
    using inv by (intro Max_eqI fin) auto
  then show ?thesis unfolding longest_run_def by simp
qed

lemma growth_pages_filter:
  "growth_pages dataByPage metric minWeeks =
     map (\<lambda>(pid, pageData).
            \<lparr>growth_page = page (hd (sort_key (\<lambda>a. startDate (period a)) pageData)),
             consecutiveWeeks =
               longest_run (map (metric_value metric)
                              (sort_key (\<lambda>a. startDate (period a)) pageData)),
             totalWeeks = length pageData\<rparr>)
       (filter (\<lambda>(pid, pageData).
                  minWeeks + 1 \<le> length pageData
                  \<and> minWeeks \<le> longest_run (map (metric_value metric)
                                     (sort_key (\<lambda>a. startDate (period a)) pageData)))
          dataByPage)"
proof (induction dataByPage metric minWeeks rule: growth_pages.induct)
  case (1 metric minWeeks)
  then show ?case by simp
next
  case (2 pid pageData rest metric minWeeks)
  show ?case
  proof (cases "length pageData < minWeeks + 1")
    case True
    then show ?thesis using "2.IH"(1) by simp
  next
    case False
    then have "sort_key (\<lambda>a. startDate (period a)) pageData \<noteq> []"
      by (cases pageData) auto
    then have loop: "growth_loop metric (sort_key (\<lambda>a. startDate (period a)) pageData) 1 0 0
        = longest_run (map (metric_value metric)
            (sort_key (\<lambda>a. startDate (period a)) pageData))"
      by (rule growth_loop_longest_run)
    then have loop': "growth_loop metric (sort_key (\<lambda>a. startDate (period a)) pageData)
          (Suc 0) 0 0
        = longest_run (map (metric_value metric)
            (sort_key (\<lambda>a. startDate (period a)) pageData))"
      by simp
    show ?thesis
      using False "2.IH"(2) [OF False refl refl] "2.IH"(3) [OF False refl refl]
      by (simp add: Let_def loop loop')
  qed
qed

lemma sorted_neg_rev:
  "sorted (map (\<lambda>x. - int (f x)) xs) \<Longrightarrow> sorted (rev (map f xs))"
proof (induction xs)
  case Nil
  then show ?case by simp
next
  case (Cons x xs)
  then show ?case by (auto simp add: sorted_append)
qed

text \<open>
  C6. \<open>findConsistentGrowth\<close> keeps the pages with at least \<open>minWeeks + 1\<close> records
  whose longest run of strictly increasing consecutive values, in the records sorted
  ascending by \<open>startDate\<close> (a stable sort by the code-unit order of the strings),
  has at least \<open>minWeeks\<close> steps; each such page gives one entry, with that run length
  as \<open>consecutiveWeeks\<close> and its number of records as \<open>totalWeeks\<close>; the result is
  sorted descending by \<open>consecutiveWeeks\<close>, pages of equal run length staying in the
  order of the input. With \<open>minWeeks = 2\<close>, a page with the chronological values
  \<open>[10, 20, 30, 25]\<close> is found with \<open>consecutiveWeeks = 2\<close>.
\<close>

theorem findConsistentGrowth_spec:
  "(let chronological = (\<lambda>pageData. sort_key (\<lambda>a. startDate (period a)) pageData);
        run = (\<lambda>pageData. longest_run (map (metric_value metric) (chronological pageData)));
        found = map (\<lambda>(pid, pageData).
                       \<lparr>growth_page = page (hd (chronological pageData)),
                        consecutiveWeeks = run pageData,
                        totalWeeks = length pageData\<rparr>)
                  (filter (\<lambda>(pid, pageData).
                             minWeeks + 1 \<le> length pageData \<and> minWeeks \<le> run pageData)
                     dataByPage);
        result = findConsistentGrowth dataByPage metric minWeeks
    in mset result = mset found
       \<and> sorted (rev (map consecutiveWeeks result))
       \<and> (\<forall>k. filter (\<lambda>e. consecutiveWeeks e = k) result
                = filter (\<lambda>e. consecutiveWeeks e = k) found)
       \<and> (\<forall>pageData. sorted (map (\<lambda>a. startDate (period a)) (chronological pageData))
                       \<and> mset (chronological pageData) = mset pageData))
   \<and> findConsistentGrowth
        [(''P1'', [weekly_record ''P1'' 3 ''2025-01-20'' 0 30,
                   weekly_record ''P1'' 1 ''2025-01-06'' 0 10,
                   weekly_record ''P1'' 4 ''2025-01-27'' 0 25,
                   weekly_record ''P1'' 2 ''2025-01-13'' 0 20])] Engagements 2
      = [\<lparr>growth_page = \<lparr>pageId = ''P1'', pageName = ''Page P1''\<rparr>,
           consecutiveWeeks = 2, totalWeeks = 4\<rparr>]"
proof -
  let ?chron = "\<lambda>pageData. sort_key (\<lambda>a. startDate (period a)) pageData"
  let ?run = "\<lambda>pageData. longest_run (map (metric_value metric) (?chron pageData))"
  let ?found = "map (\<lambda>(pid, pageData).
                       \<lparr>growth_page = page (hd (?chron pageData)),
                        consecutiveWeeks = ?run pageData,
                        totalWeeks = length pageData\<rparr>)
                  (filter (\<lambda>(pid, pageData).
                             minWeeks + 1 \<le> length pageData \<and> minWeeks \<le> ?run pageData)
                     dataByPage)"
  let ?result = "findConsistentGrowth dataByPage metric minWeeks"
  have result: "?result = sort_key (\<lambda>a. - int (consecutiveWeeks a)) ?found"
    unfolding findConsistentGrowth_def growth_pages_filter ..
  have perm: "mset ?result = mset ?found"
    unfolding result by simp
  have desc: "sorted (rev (map consecutiveWeeks ?result))"
    unfolding result by (rule sorted_neg_rev) (rule sorted_sort_key)
  have stable: "filter (\<lambda>e. consecutiveWeeks e = k) ?result
      = filter (\<lambda>e. consecutiveWeeks e = k) ?found" for k
  proof -
    have "filter (\<lambda>e. consecutiveWeeks e = k) ?result
        = filter (\<lambda>e. - int (consecutiveWeeks e) = - int k) ?result" by simp
    also have "\<dots> = filter (\<lambda>e. - int (consecutiveWeeks e) = - int k) ?found"
      unfolding result by (rule sort_key_stable)
    finally show ?thesis by simp
  qed
  have chron: "sorted (map (\<lambda>a. startDate (period a)) (?chron pageData))
      \<and> mset (?chron pageData) = mset pageData" for pageData
    by (simp add: sorted_sort_key)
  have example: "findConsistentGrowth
        [(''P1'', [weekly_record ''P1'' 3 ''2025-01-20'' 0 30,
                   weekly_record ''P1'' 1 ''2025-01-06'' 0 10,
                   weekly_record ''P1'' 4 ''2025-01-27'' 0 25,
                   weekly_record ''P1'' 2 ''2025-01-13'' 0 20])] Engagements 2
      = [\<lparr>growth_page = \<lparr>pageId = ''P1'', pageName = ''Page P1''\<rparr>,
           consecutiveWeeks = 2, totalWeeks = 4\<rparr>]"
    by (simp add: findConsistentGrowth_def weekly_record_def growth_loop.simps Let_def)
  show ?thesis
    unfolding Let_def using perm desc stable chron example by blast
qed

theorem findConsistentGrowth_spec_witness:
  "findConsistentGrowth
     [(''P2'', [weekly_record ''P2'' 1 ''2025-01-06'' 0 5,
                weekly_record ''P2'' 2 ''2025-01-13'' 0 4,
                weekly_record ''P2'' 3 ''2025-01-20'' 0 6]),
      (''P1'', [weekly_record ''P1'' 10 ''2025-03-03'' 0 10,
                weekly_record ''P1'' 12 ''2025-03-17'' 0 30,
                weekly_record ''P1'' 11 ''2025-03-10'' 0 20,
                weekly_record ''P1'' 13 ''2025-03-24'' 0 25])] Engagements 2
   = [\<lparr>growth_page = \<lparr>pageId = ''P1'', pageName = ''Page P1''\<rparr>,
        consecutiveWeeks = 2, totalWeeks = 4\<rparr>]
   \<and> longest_run [10, 20, 30, 25] = 2 \<and> longest_run [5, 4, 6] = 1"
proof -
  let ?p2 = "[weekly_record ''P2'' 1 ''2025-01-06'' 0 5,
              weekly_record ''P2'' 2 ''2025-01-13'' 0 4,
              weekly_record ''P2'' 3 ''2025-01-20'' 0 6]"
  let ?p1 = "[weekly_record ''P1'' 10 ''2025-03-03'' 0 10,
              weekly_record ''P1'' 12 ''2025-03-17'' 0 30,
              weekly_record ''P1'' 11 ''2025-03-10'' 0 20,
              weekly_record ''P1'' 13 ''2025-03-24'' 0 25]"
  have r1: "longest_run [10, 20, 30, 25] = 2"
    using growth_loop_longest_run
      [of "[weekly_record ''P1'' 10 ''2025-03-03'' 0 10,
            weekly_record ''P1'' 11 ''2025-03-10'' 0 20,
            weekly_record ''P1'' 12 ''2025-03-17'' 0 30,
            weekly_record ''P1'' 13 ''2025-03-24'' 0 25]" Engagements]
    by (simp add: growth_loop.simps weekly_record_def)
  have r2: "longest_run [5, 4, 6] = 1"
    using growth_loop_longest_run [of ?p2 Engagements]
    by (simp add: growth_loop.simps weekly_record_def)
  have found:
    "map (\<lambda>(pid, pageData).
            \<lparr>growth_page = page (hd (sort_key (\<lambda>a. startDate (period a)) pageData)),
             consecutiveWeeks =
               longest_run (map (metric_value Engagements)
                              (sort_key (\<lambda>a. startDate (period a)) pageData)),
             totalWeeks = length pageData\<rparr>)
       (filter (\<lambda>(pid, pageData).
                  2 + 1 \<le> length pageData
                  \<and> 2 \<le> longest_run (map (metric_value Engagements)
                              (sort_key (\<lambda>a. startDate (period a)) pageData)))
          [(''P2'', ?p2), (''P1'', ?p1)])
     = [\<lparr>growth_page = \<lparr>pageId = ''P1'', pageName = ''Page P1''\<rparr>,
          consecutiveWeeks = 2, totalWeeks = 4\<rparr>]"
    by (simp add: weekly_record_def r1 r2)
  note spec = findConsistentGrowth_spec [of Engagements 2 "[(''P2'', ?p2), (''P1'', ?p1)]",
      unfolded Let_def, THEN conjunct1, THEN conjunct1]
  have "mset (findConsistentGrowth [(''P2'', ?p2), (''P1'', ?p1)] Engagements 2)
      = mset [\<lparr>growth_page = \<lparr>pageId = ''P1'', pageName = ''Page P1''\<rparr>,
            consecutiveWeeks = 2, totalWeeks = 4\<rparr>]"
    using spec unfolding found .
  then have "findConsistentGrowth [(''P2'', ?p2), (''P1'', ?p1)] Engagements 2
      = [\<lparr>growth_page = \<lparr>pageId = ''P1'', pageName = ''Page P1''\<rparr>,
           consecutiveWeeks = 2, totalWeeks = 4\<rparr>]"
    by (simp only: mset.simps mset_single_iff)
  then show ?thesis using r1 r2 by (simp only: simp_thms)
qed

section \<open>Grouping\<close>

lemma for_each_snoc:
  "for_each f (xs @ [x]) s = (case for_each f xs s of Inl e \<Rightarrow> Inl e | Inr s' \<Rightarrow> f x s')"
  by (induction xs arbitrary: s) (auto split: sum.splits)






















section \<open>Pivot table\<close>

lemma set_spread_fold:
  "set (fold (\<lambda>x s. if x \<in> set s then s else s @ [x]) xs acc) = set acc \<union> set xs
   \<and> (distinct acc \<longrightarrow> distinct (fold (\<lambda>x s. if x \<in> set s then s else s @ [x]) xs acc))"
  by (induction xs arbitrary: acc) auto

lemma set_set_spread [simp]: "set (set_spread xs) = set xs"
  using set_spread_fold [of xs "[]"] by (simp add: set_spread_def)

lemma distinct_set_spread [simp]: "distinct (set_spread xs)"
  using set_spread_fold [of xs "[]"] by (simp add: set_spread_def)

lemma find_Some_member: "find P xs = Some x \<Longrightarrow> x \<in> set xs \<and> P x"
  by (induction xs) (auto split: if_splits)

lemma pivot_cell_map_of:
  "pivot_cell t pid weekKey =
     (case map_of (pivot_data t) pid of
        None \<Rightarrow> None
      | Some row \<Rightarrow> map_of (row_weeks row) weekKey)"
  by (simp add: pivot_cell_def get_property_def split: option.splits)

text \<open>
  After the \<open>forEach\<close>, a cell holds the value of the last record written to it.
\<close>

lemma pivot_invariant:
  assumes "\<forall>d \<in> set records. pageId (page d) \<notin> set object_prototype_keys"
  shows "\<exists>pivotData. for_each (add_to_pivot metric) records [] = Inr pivotData
      \<and> (\<forall>pid weekKey.
            (case map_of pivotData pid of
               None \<Rightarrow> None
             | Some row \<Rightarrow> map_of (row_weeks row) weekKey)
            = map_option (metric_value metric)
                (find (\<lambda>d. pageId (page d) = pid \<and> getPeriodKey (period d) = weekKey)
                   (rev records)))"
  using assms
proof (induction records rule: rev_induct)
  case Nil
  then show ?case by simp
next
  case (snoc d records)
  let ?cell = "\<lambda>pivotData pid weekKey.
      case map_of pivotData pid of None \<Rightarrow> None | Some row \<Rightarrow> map_of (row_weeks row) weekKey"
  let ?last = "\<lambda>records pid weekKey. map_option (metric_value metric)
      (find (\<lambda>d. pageId (page d) = pid \<and> getPeriodKey (period d) = weekKey) (rev records))"
  from snoc obtain pivotData where
    run: "for_each (add_to_pivot metric) records [] = Inr pivotData"
    and cells: "\<forall>pid weekKey. ?cell pivotData pid weekKey = ?last records pid weekKey"
    by auto
  have key: "pageId (page d) \<notin> set object_prototype_keys" using snoc.prems by simp
  let ?pid = "pageId (page d)" and ?wk = "getPeriodKey (period d)"
  show ?case
  proof (cases "map_of pivotData ?pid")
    case None
    then have "get_property pivotData ?pid = Undefined"
      using key by (rule get_property_undefined)
    then have step: "for_each (add_to_pivot metric) (records @ [d]) []
        = Inr (AList.update ?pid
                 \<lparr>row_page = page d,
                  row_weeks = AList.update ?wk (metric_value metric d) []\<rparr> pivotData)"
      by (simp add: for_each_snoc run add_to_pivot_def Let_def)
    have "?cell (AList.update ?pid
                 \<lparr>row_page = page d,
                  row_weeks = AList.update ?wk (metric_value metric d) []\<rparr> pivotData)
             pid weekKey
        = ?last (records @ [d]) pid weekKey" for pid weekKey
    proof -
      from cells have "?cell pivotData pid weekKey = ?last records pid weekKey" by blast
      then show ?thesis using None by (auto simp add: update_conv')
    qed
    then show ?thesis using step by auto
  next
    case (Some row)
    then have "get_property pivotData ?pid = Own row"
      by (rule get_property_own)
    then have step: "for_each (add_to_pivot metric) (records @ [d]) []
        = Inr (AList.update ?pid
                 (row\<lparr>row_weeks := AList.update ?wk (metric_value metric d) (row_weeks row)\<rparr>)
                 pivotData)"
      by (simp add: for_each_snoc run add_to_pivot_def Let_def)
    have "?cell (AList.update ?pid
                 (row\<lparr>row_weeks := AList.update ?wk (metric_value metric d) (row_weeks row)\<rparr>)
                 pivotData)
             pid weekKey
        = ?last (records @ [d]) pid weekKey" for pid weekKey
    proof -
      from cells have "?cell pivotData pid weekKey = ?last records pid weekKey" by blast
      then show ?thesis using Some by (auto simp add: update_conv')
    qed
    then show ?thesis using step by auto
  qed
qed

text \<open>
  The round trip of the pivot table, on records whose page ids are not names of
  members of \<open>Object.prototype\<close> and which are uniquely identified by period key and
  page id: every record's value is read back from its cell, a cell without a record
  is empty, and the weeks are the distinct period keys, sorted.
\<close>

lemma createPivotTable_round_trip:
  assumes ids: "\<forall>d \<in> set records. pageId (page d) \<notin> set object_prototype_keys"
    and unique: "distinct (map (\<lambda>d. (getPeriodKey (period d), pageId (page d))) records)"
  shows "\<exists>t. createPivotTable records metric = Inr t
      \<and> (\<forall>d \<in> set records.
            pivot_cell t (pageId (page d)) (getPeriodKey (period d)) = Some (metric_value metric d))
      \<and> (\<forall>pid weekKey.
            (\<forall>d \<in> set records. \<not> (pageId (page d) = pid \<and> getPeriodKey (period d) = weekKey))
            \<longrightarrow> pivot_cell t pid weekKey = None)
      \<and> sorted (pivot_weeks t) \<and> distinct (pivot_weeks t)
      \<and> set (pivot_weeks t) = set (map (\<lambda>d. getPeriodKey (period d)) records)
      \<and> distinct (pivot_pages t)
      \<and> set (pivot_pages t) = set (map (\<lambda>d. pageId (page d)) records)"
proof -
  let ?P = "\<lambda>pid weekKey d. pageId (page d) = pid \<and> getPeriodKey (period d) = weekKey"
  obtain pivotData where
    run: "for_each (add_to_pivot metric) records [] = Inr pivotData"
    and cells: "\<And>pid weekKey.
            (case map_of pivotData pid of
               None \<Rightarrow> None
             | Some row \<Rightarrow> map_of (row_weeks row) weekKey)
            = map_option (metric_value metric) (find (?P pid weekKey) (rev records))"
    using pivot_invariant [OF ids, of metric] by auto
  let ?t = "(if records = []
      then \<lparr>pivot_pages = [], pivot_weeks = [], pivot_data = [], pivot_metric = None\<rparr>
      else \<lparr>pivot_pages = set_spread (map (\<lambda>d. pageId (page d)) records),
             pivot_weeks = sort (set_spread (map (\<lambda>d. getPeriodKey (period d)) records)),
             pivot_data = pivotData, pivot_metric = Some metric\<rparr>)"
  have result: "createPivotTable records metric = Inr ?t"
    by (simp add: createPivotTable_def run Let_def)
  have data: "pivot_data ?t = pivotData"
    using run by (cases "records = []") auto
  have cell: "pivot_cell ?t pid weekKey
      = map_option (metric_value metric) (find (?P pid weekKey) (rev records))" for pid weekKey
    unfolding pivot_cell_map_of data by (rule cells)
  have inj: "inj_on (\<lambda>d. (getPeriodKey (period d), pageId (page d))) (set records)"
    using unique by (simp add: distinct_map)
  have present: "pivot_cell ?t (pageId (page d)) (getPeriodKey (period d))
      = Some (metric_value metric d)" if d: "d \<in> set records" for d
  proof -
    have "find (?P (pageId (page d)) (getPeriodKey (period d))) (rev records) \<noteq> None"
      using d by (auto simp add: find_None_iff)
    then obtain d' where
      found: "find (?P (pageId (page d)) (getPeriodKey (period d))) (rev records) = Some d'"
      by auto
    then have "d' \<in> set records" and "?P (pageId (page d)) (getPeriodKey (period d)) d'"
      using find_Some_member [OF found] by simp_all
    then have "d' = d" using inj d by (auto dest: inj_onD)
    then show ?thesis unfolding cell found by simp
  qed
  have absent: "pivot_cell ?t pid weekKey = None"
    if "\<forall>d \<in> set records. \<not> ?P pid weekKey d" for pid weekKey
  proof -
    have "find (?P pid weekKey) (rev records) = None"
      using that by (simp add: find_None_iff)
    then show ?thesis unfolding cell by simp
  qed
  have weeks: "sorted (pivot_weeks ?t)" "distinct (pivot_weeks ?t)"
    "set (pivot_weeks ?t) = set (map (\<lambda>d. getPeriodKey (period d)) records)"
    by simp_all
  have pages: "distinct (pivot_pages ?t)"
    "set (pivot_pages ?t) = set (map (\<lambda>d. pageId (page d)) records)"
    by simp_all
  show ?thesis
    using result present absent weeks pages by blast
qed

text \<open>
  A pivot table computed: two pages, two weeks, three records.
\<close>

lemma createPivotTable_example:
  "createPivotTable
     [weekly_record ''P1'' 42 ''2025-10-13'' 120000 700,
      weekly_record ''P2'' 41 ''2025-10-06'' 30 7,
      weekly_record ''P1'' 41 ''2025-10-06'' 100000 500] Engagements
   = Inr \<lparr>pivot_pages = [''P1'', ''P2''], pivot_weeks = [''2025_41'', ''2025_42''],
          pivot_data =
            [(''P1'', \<lparr>row_page = \<lparr>pageId = ''P1'', pageName = ''Page P1''\<rparr>,
                       row_weeks = [(''2025_42'', 700), (''2025_41'', 500)]\<rparr>),
             (''P2'', \<lparr>row_page = \<lparr>pageId = ''P2'', pageName = ''Page P2''\<rparr>,
                       row_weeks = [(''2025_41'', 7)]\<rparr>)],
          pivot_metric = Some Engagements\<rparr>"
proof -
  have keys: "getPeriodKey \<lparr>year = 2025, week = 41, startDate = s, endDate = e\<rparr> = ''2025_41''"
    "getPeriodKey \<lparr>year = 2025, week = 42, startDate = s, endDate = e\<rparr> = ''2025_42''" for s e
    by (simp_all add: getPeriodKey_def show_int_def show_nat.simps digit_char_def)
  show ?thesis
    by (simp add: createPivotTable_def add_to_pivot_def get_property_def set_spread_def
        object_prototype_keys_def weekly_record_def Let_def keys)
qed

section \<open>Page ids that name inherited properties\<close>

text \<open>
  The case left out of the grouping theorem. For a record whose page id is
  \<open>constructor\<close> (a row the CSV reader accepts), \<open>pageGroups['constructor']\<close> is the
  inherited \<open>Object\<close> function: no group is created,
  \<open>pageGroups['constructor'].weeks\<close> is \<open>undefined\<close>, and \<open>aggregateByPage\<close> throws a
  \<open>TypeError\<close> instead of returning the groups.
\<close>

lemma aggregateByPage_inherited_name:
  "aggregateByPage [weekly_record ''constructor'' 41 ''2025-10-06'' 100000 500]
     = Inl TypeError"
  by (simp add: aggregateByPage_def aggregate_by_def add_to_group_def get_property_def
      object_prototype_keys_def weekly_record_def)

text \<open>
  C4. The claim is that every record sequence with unique \<open>(periodKey, pageId)\<close>
  pairs can be read back from the pivot table. For the single record with page id
  \<open>constructor\<close>, \<open>pivotData['constructor']\<close> is the inherited \<open>Object\<close> function: no
  row is created, the assignment to \<open>pivotData['constructor'].weeks[weekKey]\<close> throws
  a \<open>TypeError\<close>, and \<open>createPivotTable\<close> returns no table.
\<close>

theorem createPivotTable_constructor:
  "createPivotTable [weekly_record ''constructor'' 41 ''2025-10-06'' 100000 500] Engagements
     = Inl TypeError
   \<and> distinct [(getPeriodKey (period (weekly_record ''constructor'' 41 ''2025-10-06'' 100000 500)),
                 pageId (page (weekly_record ''constructor'' 41 ''2025-10-06'' 100000 500)))]"
  by (simp add: createPivotTable_def add_to_pivot_def get_property_def
      object_prototype_keys_def weekly_record_def Let_def)

end
